theory Spec2Isabelle
  imports Main "HOL-Library.Word"
begin

unbundle bit_operations_syntax

section \<open>Configuration of hw\_ui\_pixelcontroller.ino\<close>

text \<open>
  The sketch is configured by preprocessor constants (lines 42-53). Pin numbers and
  element counts are never negative, so they are natural numbers.
  \<open>ARRAY_SIZE(gPatterns)\<close> is the compile-time length of the pattern table, which
  has six entries (line 57).
\<close>

definition BASE_FSEL_PIN :: nat where
  "BASE_FSEL_PIN = 2"

definition BSEL_PIN1 :: nat where
  "BSEL_PIN1 = 10"

definition BSEL_PIN2 :: nat where
  "BSEL_PIN2 = 11"

definition NUM_LEDS :: nat where
  "NUM_LEDS = 50"

definition ARRAY_SIZE_gPatterns :: nat where
  "ARRAY_SIZE_gPatterns = 6"

section \<open>Data\<close>

text \<open>
  FastLED's pixel types: \<open>CRGB\<close> is three bytes (red, green, blue), \<open>CHSV\<close> is three
  bytes (hue, saturation, value). \<open>uint8_t\<close> is \<open>8 word\<close>; \<open>int8_t\<close> is the same
  eight bits read with \<open>sint\<close>; \<open>int\<close> on the AVR target is \<open>16 word\<close>.
\<close>

record CRGB =
  crgb_r :: "8 word"
  crgb_g :: "8 word"
  crgb_b :: "8 word"

record CHSV =
  hsv_hue :: "8 word"
  hsv_sat :: "8 word"
  hsv_val :: "8 word"

text \<open>
  The global variables of the sketch (lines 49, 59-61), together with what the strip
  driver has been told: the brightness last passed to \<open>FastLED.setBrightness\<close> and the
  frames pushed by \<open>FastLED.show\<close>, oldest first, each with the brightness in force.
\<close>

record globals =
  leds :: "CRGB list"
  gCurrentPatternNumber :: "8 word"
  gCycle :: "8 word"
  gHue :: "8 word"
  fl_brightness :: "8 word"
  fl_shown :: "(8 word \<times> CRGB list) list"

text \<open>
  The electrical level of every pin during one frame: \<open>True\<close> is HIGH (pulled up,
  nothing attached), \<open>False\<close> is LOW (jumper to ground). Every pin is read at most once
  per frame, so one level per pin describes the frame.
\<close>

type_synonym pins = "nat \<Rightarrow> bool"

text \<open>
  What one iteration of \<open>loop\<close> receives from outside: the pin levels, and whether the
  elapsed-time tests of \<open>EVERY_N_MILLISECONDS(20)\<close> and \<open>EVERY_N_SECONDS(60)\<close> succeed
  in this iteration. The clock itself is FastLED's and is not modelled.
\<close>

record frame_input =
  pin_levels :: pins
  due_20ms :: bool
  due_60s :: bool

section \<open>Static initialisation (lines 49, 59-61)\<close>

text \<open>
  Statics are zero-initialised, the three selector variables carry the initialiser
  \<open>0\<close> each, and the driver starts at full brightness with nothing shown.
\<close>

definition power_on :: globals where
  "power_on =
     \<lparr>leds = replicate NUM_LEDS \<lparr>crgb_r = 0, crgb_g = 0, crgb_b = 0\<rparr>,
      gCurrentPatternNumber = 0,
      gCycle = 0,
      gHue = 0,
      fl_brightness = 255,
      fl_shown = []\<rparr>"

section \<open>Function selector (lines 63-71)\<close>

text \<open>\<open>digitalRead\<close> yields the \<open>int\<close> HIGH (1) or LOW (0).\<close>

definition digitalRead :: "pins \<Rightarrow> nat \<Rightarrow> 16 word" where
  "digitalRead ps p = (if ps p then 1 else 0)"

text \<open>
  The \<open>for\<close> loop of \<open>functionSelect\<close>, entered at counter \<open>i\<close>. \<open>!x\<close> is true
  exactly when \<open>x\<close> is zero. The result type is \<open>int8_t\<close>: \<open>return i\<close> converts the
  counter to eight bits, \<open>return -1\<close> is the byte 0xFF.
\<close>

function functionSelect_from :: "pins \<Rightarrow> nat \<Rightarrow> 8 word" where
  "functionSelect_from ps i =
     (if i < ARRAY_SIZE_gPatterns then
        (if digitalRead ps (BASE_FSEL_PIN + i) = 0 then word_of_nat i
         else functionSelect_from ps (i + 1))
      else - 1)"
  by pat_completeness auto
termination
  by (relation "measure (\<lambda>(ps, i). ARRAY_SIZE_gPatterns - i)") auto

definition functionSelect :: "pins \<Rightarrow> 8 word" where
  "functionSelect ps = functionSelect_from ps 0"

section \<open>Pattern advance (lines 130-136)\<close>

text \<open>
  \<open>gCurrentPatternNumber + 1\<close> is computed in \<open>int\<close> after integer promotion, the
  remainder is taken against the unsigned table size, and the result is stored back
  into the \<open>uint8_t\<close>.
\<close>

definition nextPattern :: "globals \<Rightarrow> globals" where
  "nextPattern s =
     (if gCycle s = 0 then s
      else s\<lparr>gCurrentPatternNumber :=
               ucast (((ucast (gCurrentPatternNumber s) :: 16 word) + 1)
                        mod word_of_nat ARRAY_SIZE_gPatterns)\<rparr>)"

section \<open>The selection step of \<open>loop\<close> (lines 99-109)\<close>

definition select_function :: "pins \<Rightarrow> globals \<Rightarrow> globals" where
  "select_function ps s =
     (let func = functionSelect ps in
      if sint func = - 1 then
        (if gCycle s = 0
         then nextPattern (s\<lparr>gCycle := 1, gCurrentPatternNumber := 0\<rparr>)
         else s)
      else s\<lparr>gCycle := 0, gCurrentPatternNumber := func\<rparr>)"

section \<open>Brightness (lines 112-113)\<close>

text \<open>
  The expression is evaluated in \<open>int\<close> and stored into the \<open>uint8_t\<close> local
  \<open>brightness\<close>.
\<close>

definition brightness_select :: "pins \<Rightarrow> 8 word" where
  "brightness_select ps =
     ucast (push_bit 7 (NOT (digitalRead ps BSEL_PIN2) AND 0x01)
            OR push_bit 6 (NOT (digitalRead ps BSEL_PIN1) AND 0x01)
            OR (0x3F :: 16 word))"

section \<open>Pattern renderers (lines 138-193)\<close>

text \<open>
  \<open>leds[i].setRGB(nr, ng, nb)\<close> stores three bytes into the fields of the pixel it is
  called on; \<open>CRGB(nr, ng, nb)\<close> constructs a pixel.
\<close>

definition setRGB :: "8 word \<Rightarrow> 8 word \<Rightarrow> 8 word \<Rightarrow> CRGB \<Rightarrow> CRGB" where
  "setRGB nr ng nb px = px\<lparr>crgb_r := nr, crgb_g := ng, crgb_b := nb\<rparr>"

definition CRGB_of :: "8 word \<Rightarrow> 8 word \<Rightarrow> 8 word \<Rightarrow> CRGB" where
  "CRGB_of nr ng nb = \<lparr>crgb_r = nr, crgb_g = ng, crgb_b = nb\<rparr>"

text \<open>
  The five hand-written renderers share one loop,
  \<open>for (int i = 0; i < NUM_LEDS; i++) { body }\<close>, here entered at counter \<open>i\<close>; the
  body acts on the buffer at position \<open>i\<close>.
\<close>

function for_each_led :: "(nat \<Rightarrow> CRGB list \<Rightarrow> CRGB list) \<Rightarrow> nat \<Rightarrow> CRGB list \<Rightarrow> CRGB list" where
  "for_each_led body i buf =
     (if i < NUM_LEDS then for_each_led body (i + 1) (body i buf) else buf)"
  by pat_completeness auto
termination
  by (relation "measure (\<lambda>(body, i, buf). NUM_LEDS - i)") auto

definition red :: "globals \<Rightarrow> globals" where
  "red s = s\<lparr>leds := for_each_led (\<lambda>i buf. buf[i := setRGB 0 255 0 (buf ! i)]) 0 (leds s)\<rparr>"

definition green :: "globals \<Rightarrow> globals" where
  "green s = s\<lparr>leds := for_each_led (\<lambda>i buf. buf[i := setRGB 255 0 0 (buf ! i)]) 0 (leds s)\<rparr>"

definition blue :: "globals \<Rightarrow> globals" where
  "blue s = s\<lparr>leds := for_each_led (\<lambda>i buf. buf[i := setRGB 0 0 255 (buf ! i)]) 0 (leds s)\<rparr>"

definition white :: "globals \<Rightarrow> globals" where
  "white s = s\<lparr>leds := for_each_led (\<lambda>i buf. buf[i := setRGB 255 255 255 (buf ! i)]) 0 (leds s)\<rparr>"

text \<open>
  The \<open>switch\<close> of \<open>multi\<close> has five cases and no default: a selector outside
  \<open>0..4\<close> would leave the element as it was.
\<close>

definition multi_body :: "nat \<Rightarrow> CRGB list \<Rightarrow> CRGB list" where
  "multi_body i buf =
     (if i mod 5 = 0 then buf[i := CRGB_of 80 255 0]
      else if i mod 5 = 1 then buf[i := CRGB_of 0 0 255]
      else if i mod 5 = 2 then buf[i := CRGB_of 255 0 0]
      else if i mod 5 = 3 then buf[i := CRGB_of 0 100 255]
      else if i mod 5 = 4 then buf[i := CRGB_of 0 255 0]
      else buf)"

definition multi :: "globals \<Rightarrow> globals" where
  "multi s = s\<lparr>leds := for_each_led multi_body 0 (leds s)\<rparr>"

text \<open>
  Modelled from the spec: \<open>fill_rainbow\<close> is a function of the FastLED library and is
  not part of the sketch. Section 4.5 of the specification requires every renderer to
  overwrite every element of the buffer it is given, and section 4.4 says the rainbow
  renderer reads the rotating hue. The model follows the library's documented
  behaviour: starting from \<open>initialhue\<close> at saturation 240 and value 255, it stores
  one colour into each of the first \<open>numToFill\<close> elements in increasing order and
  adds \<open>deltahue\<close> to the 8-bit hue after each. The conversion from \<open>CHSV\<close> to
  \<open>CRGB\<close> done by the assignment is the library's too and is a parameter
  \<open>hsv2rgb\<close>. Both hue arguments are passed by value.
\<close>

function fill_rainbow_from ::
  "(CHSV \<Rightarrow> CRGB) \<Rightarrow> nat \<Rightarrow> nat \<Rightarrow> 8 word \<Rightarrow> CHSV \<Rightarrow> CRGB list \<Rightarrow> CRGB list" where
  "fill_rainbow_from hsv2rgb i numToFill deltahue hsv buf =
     (if i < numToFill then
        fill_rainbow_from hsv2rgb (i + 1) numToFill deltahue
          (hsv\<lparr>hsv_hue := hsv_hue hsv + deltahue\<rparr>) (buf[i := hsv2rgb hsv])
      else buf)"
  by pat_completeness auto
termination
  by (relation "measure (\<lambda>(hsv2rgb, i, numToFill, deltahue, hsv, buf). numToFill - i)") auto

definition fill_rainbow ::
  "(CHSV \<Rightarrow> CRGB) \<Rightarrow> CRGB list \<Rightarrow> nat \<Rightarrow> 8 word \<Rightarrow> 8 word \<Rightarrow> CRGB list" where
  "fill_rainbow hsv2rgb pFirstLED numToFill initialhue deltahue =
     fill_rainbow_from hsv2rgb 0 numToFill deltahue
       \<lparr>hsv_hue = initialhue, hsv_sat = 240, hsv_val = 255\<rparr> pFirstLED"

definition rainbow :: "(CHSV \<Rightarrow> CRGB) \<Rightarrow> globals \<Rightarrow> globals" where
  "rainbow hsv2rgb s = s\<lparr>leds := fill_rainbow hsv2rgb (leds s) NUM_LEDS (gHue s) 7\<rparr>"

text \<open>The pattern table (line 57), in its declared order.\<close>

definition gPatterns :: "(CHSV \<Rightarrow> CRGB) \<Rightarrow> (globals \<Rightarrow> globals) list" where
  "gPatterns hsv2rgb = [red, multi, blue, green, white, rainbow hsv2rgb]"

section \<open>The frame loop (lines 93-126)\<close>

text \<open>\<open>FastLED.show()\<close> sends the buffer at the brightness set before.\<close>

definition FastLED_show :: "globals \<Rightarrow> globals" where
  "FastLED_show s = s\<lparr>fl_shown := fl_shown s @ [(fl_brightness s, leds s)]\<rparr>"

text \<open>
  The two periodic blocks at the end of \<open>loop\<close> (lines 124-125), in source order:
  \<open>gHue++\<close> when the 20 ms test succeeds, then \<open>nextPattern()\<close> when the 60 s test
  succeeds.
\<close>

definition periodic_tasks :: "bool \<Rightarrow> bool \<Rightarrow> globals \<Rightarrow> globals" where
  "periodic_tasks d20 d60 s =
     (let s1 = (if d20 then s\<lparr>gHue := gHue s + 1\<rparr> else s)
      in if d60 then nextPattern s1 else s1)"

text \<open>
  One iteration of \<open>loop\<close>. Indexing \<open>gPatterns\<close> outside the table is undefined in
  C++; the model returns \<open>None\<close> there. The pacing delay of line 121 changes no
  variable.
\<close>

definition loop :: "(CHSV \<Rightarrow> CRGB) \<Rightarrow> frame_input \<Rightarrow> globals \<Rightarrow> globals option" where
  "loop hsv2rgb inp s =
     (let s1 = select_function (pin_levels inp) s;
          brightness = brightness_select (pin_levels inp);
          s2 = s1\<lparr>fl_brightness := brightness\<rparr>
      in if unat (gCurrentPatternNumber s2) < length (gPatterns hsv2rgb) then
           let s3 = (gPatterns hsv2rgb ! unat (gCurrentPatternNumber s2)) s2;
               s4 = FastLED_show s3
           in Some (periodic_tasks (due_20ms inp) (due_60s inp) s4)
         else None)"

text \<open>The sketch after power-up: \<open>loop\<close> once per element of the input sequence.\<close>

fun run :: "(CHSV \<Rightarrow> CRGB) \<Rightarrow> frame_input list \<Rightarrow> globals \<Rightarrow> globals option" where
  "run hsv2rgb [] s = Some s"
| "run hsv2rgb (inp # inps) s =
     (case loop hsv2rgb inp s of None \<Rightarrow> None | Some s' \<Rightarrow> run hsv2rgb inps s')"

text \<open>The state in which line 116 calls the renderer.\<close>

definition before_render :: "frame_input \<Rightarrow> globals \<Rightarrow> globals" where
  "before_render inp s =
     (select_function (pin_levels inp) s)\<lparr>fl_brightness := brightness_select (pin_levels inp)\<rparr>"

section \<open>Facts about the selector\<close>

text \<open>
  The loop equations unfold without end when used as rewrite rules, so they are
  applied by hand, one step at a time.
\<close>

declare functionSelect_from.simps [simp del]
declare for_each_led.simps [simp del]
declare fill_rainbow_from.simps [simp del]

lemma digitalRead_zero_iff: "digitalRead ps p = 0 \<longleftrightarrow> \<not> ps p"
  by (simp add: digitalRead_def)

lemma functionSelect_from_first:
  "\<lbrakk>i \<le> k; k < ARRAY_SIZE_gPatterns; \<not> ps (BASE_FSEL_PIN + k);
    \<forall>j. i \<le> j \<and> j < k \<longrightarrow> ps (BASE_FSEL_PIN + j)\<rbrakk>
   \<Longrightarrow> functionSelect_from ps i = word_of_nat k"
proof (induction ps i rule: functionSelect_from.induct)
  case (1 ps i)
  show ?case
  proof (cases "i = k")
    case True
    with "1.prems" show ?thesis
      by (subst functionSelect_from.simps) (simp add: digitalRead_zero_iff)
  next
    case False
    with "1.prems" have lt: "i < k" and hi: "ps (BASE_FSEL_PIN + i)" by auto
    from lt "1.prems" have inr: "i < ARRAY_SIZE_gPatterns" by simp
    have "functionSelect_from ps (i + 1) = word_of_nat k"
      using "1.IH" [OF inr] hi lt "1.prems" by (simp add: digitalRead_zero_iff)
    with inr hi show ?thesis
      by (subst functionSelect_from.simps) (simp add: digitalRead_zero_iff)
  qed
qed

lemma functionSelect_from_none:
  "\<forall>j. i \<le> j \<and> j < ARRAY_SIZE_gPatterns \<longrightarrow> ps (BASE_FSEL_PIN + j)
   \<Longrightarrow> functionSelect_from ps i = - 1"
proof (induction ps i rule: functionSelect_from.induct)
  case (1 ps i)
  show ?case
  proof (cases "i < ARRAY_SIZE_gPatterns")
    case True
    with "1.prems" have hi: "ps (BASE_FSEL_PIN + i)" by simp
    have "functionSelect_from ps (i + 1) = - 1"
      using "1.IH" [OF True] hi "1.prems" by (simp add: digitalRead_zero_iff)
    with True hi show ?thesis
      by (subst functionSelect_from.simps) (simp add: digitalRead_zero_iff)
  next
    case False
    then show ?thesis by (subst functionSelect_from.simps) simp
  qed
qed

lemma small_index_not_minus_one:
  "k < ARRAY_SIZE_gPatterns \<Longrightarrow> sint (word_of_nat k :: 8 word) \<noteq> - 1"
proof -
  assume "k < ARRAY_SIZE_gPatterns"
  then have "k \<in> {0, 1, 2, 3, 4, 5}" by (auto simp: ARRAY_SIZE_gPatterns_def)
  then show ?thesis by auto
qed

lemma unat_small_index:
  "k < ARRAY_SIZE_gPatterns \<Longrightarrow> unat (word_of_nat k :: 8 word) = k"
  by (simp add: ARRAY_SIZE_gPatterns_def unat_of_nat)

lemma unat_advance:
  fixes x :: "8 word"
  shows "unat (ucast (((ucast x :: 16 word) + 1) mod word_of_nat ARRAY_SIZE_gPatterns) :: 8 word)
         = (unat x + 1) mod 6"
proof -
  have bound: "unat x < 256" using unsigned_less [of x] by simp
  have up: "unat (ucast x :: 16 word) = unat x"
    using bound by (simp add: unsigned_ucast_eq take_bit_nat_eq_self)
  have "unat (ucast x :: 16 word) + unat (1 :: 16 word) < 2 ^ LENGTH(16)"
    using bound up by simp
  then have plus: "unat ((ucast x :: 16 word) + 1) = unat x + 1"
    using up by (simp add: unat_add_lem [THEN iffD1])
  have md: "unat (((ucast x :: 16 word) + 1) mod word_of_nat ARRAY_SIZE_gPatterns) = (unat x + 1) mod 6"
    by (simp add: unat_mod plus ARRAY_SIZE_gPatterns_def)
  have "(unat x + 1) mod 6 < 256"
    by (rule less_trans [of _ 6]) simp_all
  then show ?thesis
    by (simp add: unsigned_ucast_eq md take_bit_nat_eq_self)
qed

lemma nextPattern_index:
  "gCycle s \<noteq> 0 \<Longrightarrow>
   unat (gCurrentPatternNumber (nextPattern s)) = (unat (gCurrentPatternNumber s) + 1) mod 6"
  by (simp add: nextPattern_def unat_advance)

lemma nextPattern_disabled: "gCycle s = 0 \<Longrightarrow> nextPattern s = s"
  by (simp add: nextPattern_def)

lemma nextPattern_fields:
  "gCycle (nextPattern s) = gCycle s" "gHue (nextPattern s) = gHue s"
  "leds (nextPattern s) = leds s" "fl_brightness (nextPattern s) = fl_brightness s"
  "fl_shown (nextPattern s) = fl_shown s"
  by (simp_all add: nextPattern_def)

lemma functionSelect_from_cases:
  "functionSelect_from ps i = - 1 \<or> unat (functionSelect_from ps i) < ARRAY_SIZE_gPatterns"
proof (induction ps i rule: functionSelect_from.induct)
  case (1 ps i)
  show ?case
  proof (cases "i < ARRAY_SIZE_gPatterns")
    case inr: True
    show ?thesis
    proof (cases "ps (BASE_FSEL_PIN + i)")
      case True
      with inr have "functionSelect_from ps i = functionSelect_from ps (i + 1)"
        by (subst functionSelect_from.simps) (simp add: digitalRead_zero_iff)
      moreover have "functionSelect_from ps (i + 1) = - 1
          \<or> unat (functionSelect_from ps (i + 1)) < ARRAY_SIZE_gPatterns"
        using "1.IH" [OF inr] True by (simp add: digitalRead_zero_iff)
      ultimately show ?thesis by simp
    next
      case False
      with inr have "functionSelect_from ps i = word_of_nat i"
        by (subst functionSelect_from.simps) (simp add: digitalRead_zero_iff)
      with inr show ?thesis by (simp add: unat_small_index)
    qed
  next
    case False
    then show ?thesis by (subst functionSelect_from.simps) simp
  qed
qed

lemma sint_minus_one_iff: "sint (w :: 8 word) = - 1 \<longleftrightarrow> w = - 1"
proof
  assume "sint w = - 1"
  then have "sint w = sint (- 1 :: 8 word)" by simp
  then show "w = - 1" by (rule signed_word_eqI)
qed simp

lemma select_function_index:
  assumes "unat (gCurrentPatternNumber s) < ARRAY_SIZE_gPatterns"
  shows "unat (gCurrentPatternNumber (select_function ps s)) < ARRAY_SIZE_gPatterns"
proof -
  consider (none) "functionSelect ps = - 1" "gCycle s = 0"
    | (keep) "functionSelect ps = - 1" "gCycle s \<noteq> 0"
    | (override) "functionSelect ps \<noteq> - 1" "unat (functionSelect ps) < ARRAY_SIZE_gPatterns"
    using functionSelect_from_cases [of ps 0] by (auto simp: functionSelect_def)
  then show ?thesis
  proof cases
    case none
    then show ?thesis
      by (simp add: select_function_def nextPattern_index ARRAY_SIZE_gPatterns_def)
  next
    case keep
    with assms show ?thesis by (simp add: select_function_def)
  next
    case override
    then show ?thesis by (simp add: select_function_def sint_minus_one_iff)
  qed
qed

lemma select_function_fields:
  "gHue (select_function ps s) = gHue s" "leds (select_function ps s) = leds s"
  "fl_brightness (select_function ps s) = fl_brightness s"
  "fl_shown (select_function ps s) = fl_shown s"
  by (simp_all add: select_function_def Let_def nextPattern_fields)

section \<open>Facts about the renderers\<close>

lemma take_Suc_update:
  "i < length buf \<Longrightarrow> take (Suc i) (buf[i := x]) = take i buf @ [x]"
  by (simp add: take_Suc_conv_app_nth)

lemma for_each_led_closed:
  "\<lbrakk>length buf = NUM_LEDS; i \<le> NUM_LEDS\<rbrakk>
   \<Longrightarrow> for_each_led (\<lambda>j xs. xs[j := f j]) i buf = take i buf @ map f [i..<NUM_LEDS]"
proof (induction "NUM_LEDS - i" arbitrary: i buf)
  case 0
  then have "i = NUM_LEDS" by simp
  with "0.prems" show ?case by (subst for_each_led.simps) simp
next
  case (Suc m)
  then have lt: "i < NUM_LEDS" and m: "m = NUM_LEDS - (i + 1)" by simp_all
  have "for_each_led (\<lambda>j xs. xs[j := f j]) i buf
        = for_each_led (\<lambda>j xs. xs[j := f j]) (i + 1) (buf[i := f i])"
    using lt by (subst for_each_led.simps) simp
  also have "\<dots> = take (i + 1) (buf[i := f i]) @ map f [i + 1..<NUM_LEDS]"
    using Suc.hyps(1) [OF m] Suc.prems lt by simp
  also have "\<dots> = take i buf @ map f [i..<NUM_LEDS]"
    using lt Suc.prems by (simp add: take_Suc_update upt_conv_Cons)
  finally show ?case .
qed

lemma setRGB_overwrites: "setRGB nr ng nb px = CRGB_of nr ng nb"
  by (simp add: setRGB_def CRGB_of_def)

lemma leds_solid:
  assumes "length (leds s) = NUM_LEDS"
  shows "leds (red s) = replicate NUM_LEDS (CRGB_of 0 255 0)"
    and "leds (green s) = replicate NUM_LEDS (CRGB_of 255 0 0)"
    and "leds (blue s) = replicate NUM_LEDS (CRGB_of 0 0 255)"
    and "leds (white s) = replicate NUM_LEDS (CRGB_of 255 255 255)"
  using assms
  by (simp_all add: red_def green_def blue_def white_def setRGB_overwrites
        for_each_led_closed map_replicate_const)

lemma multi_body_store:
  "multi_body j xs =
     xs[j := [CRGB_of 80 255 0, CRGB_of 0 0 255, CRGB_of 255 0 0,
              CRGB_of 0 100 255, CRGB_of 0 255 0] ! (j mod 5)]"
proof -
  have "j mod 5 < 5" by simp
  then have "j mod 5 = 0 \<or> j mod 5 = 1 \<or> j mod 5 = 2 \<or> j mod 5 = 3 \<or> j mod 5 = 4"
    by arith
  then show ?thesis by (auto simp: multi_body_def)
qed

lemma multi_body_ext:
  "multi_body = (\<lambda>j xs. xs[j := [CRGB_of 80 255 0, CRGB_of 0 0 255, CRGB_of 255 0 0,
              CRGB_of 0 100 255, CRGB_of 0 255 0] ! (j mod 5)])"
  by (intro ext) (rule multi_body_store)

lemma leds_multi:
  assumes "length (leds s) = NUM_LEDS"
  shows "leds (multi s) =
     map (\<lambda>j. [CRGB_of 80 255 0, CRGB_of 0 0 255, CRGB_of 255 0 0,
               CRGB_of 0 100 255, CRGB_of 0 255 0] ! (j mod 5)) [0..<NUM_LEDS]"
  using assms by (simp add: multi_def for_each_led_closed multi_body_ext)

lemma fill_rainbow_from_closed:
  "\<lbrakk>length buf = n; i \<le> n\<rbrakk>
   \<Longrightarrow> fill_rainbow_from cv i n d hsv buf =
       take i buf @ map (\<lambda>j. cv (hsv\<lparr>hsv_hue := hsv_hue hsv + word_of_nat (j - i) * d\<rparr>)) [i..<n]"
proof (induction cv i n d hsv buf rule: fill_rainbow_from.induct)
  case (1 cv i n d hsv buf)
  show ?case
  proof (cases "i < n")
    case True
    let ?hsv' = "hsv\<lparr>hsv_hue := hsv_hue hsv + d\<rparr>"
    have step: "fill_rainbow_from cv i n d hsv buf =
                fill_rainbow_from cv (i + 1) n d ?hsv' (buf[i := cv hsv])"
      using True by (subst fill_rainbow_from.simps) simp
    have ih: "fill_rainbow_from cv (i + 1) n d ?hsv' (buf[i := cv hsv]) =
              take (i + 1) (buf[i := cv hsv]) @
              map (\<lambda>j. cv (?hsv'\<lparr>hsv_hue := hsv_hue ?hsv' + word_of_nat (j - (i + 1)) * d\<rparr>)) [i + 1..<n]"
      using "1.IH" [OF True] "1.prems" True by simp
    have tl: "map (\<lambda>j. cv (?hsv'\<lparr>hsv_hue := hsv_hue ?hsv' + word_of_nat (j - (i + 1)) * d\<rparr>)) [i + 1..<n]
            = map (\<lambda>j. cv (hsv\<lparr>hsv_hue := hsv_hue hsv + word_of_nat (j - i) * d\<rparr>)) [i + 1..<n]"
    proof (rule map_cong [OF refl])
      fix j assume "j \<in> set [i + 1..<n]"
      then have "j - i = Suc (j - (i + 1))" by auto
      then show "cv (?hsv'\<lparr>hsv_hue := hsv_hue ?hsv' + word_of_nat (j - (i + 1)) * d\<rparr>)
               = cv (hsv\<lparr>hsv_hue := hsv_hue hsv + word_of_nat (j - i) * d\<rparr>)"
        by (simp add: algebra_simps)
    qed
    have hd: "take (i + 1) (buf[i := cv hsv]) = take i buf @ [cv hsv]"
      using True "1.prems" by (simp add: take_Suc_update)
    show ?thesis
      unfolding step ih tl hd using True by (simp add: upt_conv_Cons)
  next
    case False
    with "1.prems" have "i = n" by simp
    with "1.prems" show ?thesis by (subst fill_rainbow_from.simps) simp
  qed
qed

lemma leds_rainbow:
  assumes "length (leds s) = NUM_LEDS"
  shows "leds (rainbow cv s) =
     map (\<lambda>j. cv \<lparr>hsv_hue = gHue s + word_of_nat j * 7, hsv_sat = 240, hsv_val = 255\<rparr>) [0..<NUM_LEDS]"
  using assms by (simp add: rainbow_def fill_rainbow_def fill_rainbow_from_closed)

section \<open>Facts about the frame loop\<close>

lemma renderer_fields:
  "gHue (red s) = gHue s" "gCycle (red s) = gCycle s"
  "gCurrentPatternNumber (red s) = gCurrentPatternNumber s"
  "fl_brightness (red s) = fl_brightness s" "fl_shown (red s) = fl_shown s"
  "gHue (multi s) = gHue s" "gCycle (multi s) = gCycle s"
  "gCurrentPatternNumber (multi s) = gCurrentPatternNumber s"
  "fl_brightness (multi s) = fl_brightness s" "fl_shown (multi s) = fl_shown s"
  "gHue (blue s) = gHue s" "gCycle (blue s) = gCycle s"
  "gCurrentPatternNumber (blue s) = gCurrentPatternNumber s"
  "fl_brightness (blue s) = fl_brightness s" "fl_shown (blue s) = fl_shown s"
  "gHue (green s) = gHue s" "gCycle (green s) = gCycle s"
  "gCurrentPatternNumber (green s) = gCurrentPatternNumber s"
  "fl_brightness (green s) = fl_brightness s" "fl_shown (green s) = fl_shown s"
  "gHue (white s) = gHue s" "gCycle (white s) = gCycle s"
  "gCurrentPatternNumber (white s) = gCurrentPatternNumber s"
  "fl_brightness (white s) = fl_brightness s" "fl_shown (white s) = fl_shown s"
  "gHue (rainbow cv s) = gHue s" "gCycle (rainbow cv s) = gCycle s"
  "gCurrentPatternNumber (rainbow cv s) = gCurrentPatternNumber s"
  "fl_brightness (rainbow cv s) = fl_brightness s" "fl_shown (rainbow cv s) = fl_shown s"
  by (simp_all add: red_def multi_def blue_def green_def white_def rainbow_def)

lemma gPatterns_cases:
  assumes "p \<in> set (gPatterns cv)"
  obtains "p = red" | "p = multi" | "p = blue" | "p = green" | "p = white" | "p = rainbow cv"
  using assms by (auto simp: gPatterns_def)

lemma gPatterns_fields:
  assumes "p \<in> set (gPatterns cv)"
  shows "gHue (p s) = gHue s" "gCycle (p s) = gCycle s"
    "gCurrentPatternNumber (p s) = gCurrentPatternNumber s"
    "fl_brightness (p s) = fl_brightness s" "fl_shown (p s) = fl_shown s"
  using assms by (auto elim!: gPatterns_cases simp: renderer_fields)

lemma length_gPatterns: "length (gPatterns cv) = ARRAY_SIZE_gPatterns"
  by (simp add: gPatterns_def ARRAY_SIZE_gPatterns_def)

lemma periodic_tasks_index:
  "unat (gCurrentPatternNumber s) < ARRAY_SIZE_gPatterns
   \<Longrightarrow> unat (gCurrentPatternNumber (periodic_tasks d20 d60 s)) < ARRAY_SIZE_gPatterns"
  by (cases "gCycle s = 0")
     (simp_all add: periodic_tasks_def Let_def nextPattern_disabled nextPattern_index
        ARRAY_SIZE_gPatterns_def)

lemma loop_Some:
  assumes "unat (gCurrentPatternNumber (select_function (pin_levels inp) s)) < ARRAY_SIZE_gPatterns"
  shows "loop cv inp s =
     Some (periodic_tasks (due_20ms inp) (due_60s inp)
            (FastLED_show ((gPatterns cv ! unat (gCurrentPatternNumber (select_function (pin_levels inp) s)))
               (before_render inp s))))"
  using assms by (simp add: loop_def Let_def length_gPatterns before_render_def)

lemma loop_index:
  assumes inv: "unat (gCurrentPatternNumber s) < ARRAY_SIZE_gPatterns"
  shows "\<exists>s'. loop cv inp s = Some s' \<and> unat (gCurrentPatternNumber s') < ARRAY_SIZE_gPatterns"
proof -
  let ?s1 = "select_function (pin_levels inp) s"
  let ?n = "unat (gCurrentPatternNumber ?s1)"
  have n: "?n < ARRAY_SIZE_gPatterns" using inv by (rule select_function_index)
  then have mem: "gPatterns cv ! ?n \<in> set (gPatterns cv)"
    by (simp add: length_gPatterns)
  have "unat (gCurrentPatternNumber (FastLED_show ((gPatterns cv ! ?n) (before_render inp s))))
        < ARRAY_SIZE_gPatterns"
    using n by (simp add: FastLED_show_def gPatterns_fields [OF mem] before_render_def)
  then show ?thesis
    unfolding loop_Some [OF n] by (simp add: periodic_tasks_index)
qed

lemma run_index:
  "unat (gCurrentPatternNumber s) < ARRAY_SIZE_gPatterns
   \<Longrightarrow> \<exists>s'. run cv inps s = Some s' \<and> unat (gCurrentPatternNumber s') < ARRAY_SIZE_gPatterns"
proof (induction inps arbitrary: s)
  case Nil
  then show ?case by simp
next
  case (Cons inp inps)
  from loop_index [OF Cons.prems] obtain s1 where
    s1: "loop cv inp s = Some s1" "unat (gCurrentPatternNumber s1) < ARRAY_SIZE_gPatterns"
    by blast
  from Cons.IH [OF s1(2)] s1(1) show ?case by simp
qed

lemma sint_small_index:
  "k < ARRAY_SIZE_gPatterns \<Longrightarrow> sint (word_of_nat k :: 8 word) = int k"
proof -
  assume "k < ARRAY_SIZE_gPatterns"
  then have "k \<in> {0, 1, 2, 3, 4, 5}" by (auto simp: ARRAY_SIZE_gPatterns_def)
  then show ?thesis by auto
qed

lemma periodic_tasks_disabled:
  "gCycle s = 0 \<Longrightarrow> gCycle (periodic_tasks d20 d60 s) = 0
     \<and> gCurrentPatternNumber (periodic_tasks d20 d60 s) = gCurrentPatternNumber s"
  by (simp add: periodic_tasks_def Let_def nextPattern_def)

lemma not_level_bit:
  "NOT (1 :: 16 word) AND 0x01 = 0" "NOT (0 :: 16 word) AND 0x01 = 1"
  by simp_all

lemma word_of_nat_advance:
  fixes x :: "8 word"
  shows "ucast (((ucast x :: 16 word) + 1) mod word_of_nat ARRAY_SIZE_gPatterns)
         = (word_of_nat ((unat x + 1) mod 6) :: 8 word)"
proof -
  have "(unat x + 1) mod 6 < 6" by simp
  then have "(unat x + 1) mod 6 < 2 ^ LENGTH(8)" by simp
  then have "unat (word_of_nat ((unat x + 1) mod 6) :: 8 word) = (unat x + 1) mod 6"
    by (simp only: unat_of_nat mod_less)
  then show ?thesis
    by (simp only: word_unat_eq_iff unat_advance)
qed

lemma functionSelect_none:
  "\<forall>j<6. ps (BASE_FSEL_PIN + j) \<Longrightarrow> functionSelect ps = - 1"
  unfolding functionSelect_def
  by (rule functionSelect_from_none) (simp add: ARRAY_SIZE_gPatterns_def)

lemma nextPattern_from_zero:
  "nextPattern (s\<lparr>gCycle := 1, gCurrentPatternNumber := 0\<rparr>) = s\<lparr>gCycle := 1, gCurrentPatternNumber := 1\<rparr>"
proof -
  have "ucast (((ucast (0 :: 8 word) :: 16 word) + 1) mod word_of_nat ARRAY_SIZE_gPatterns) = (1 :: 8 word)"
    by (simp add: ARRAY_SIZE_gPatterns_def)
  then show ?thesis by (simp add: nextPattern_def)
qed

lemma select_function_edge:
  "\<lbrakk>\<forall>j<6. ps (BASE_FSEL_PIN + j); gCycle s = 0\<rbrakk>
   \<Longrightarrow> select_function ps s = s\<lparr>gCycle := 1, gCurrentPatternNumber := 1\<rparr>"
  by (simp add: select_function_def functionSelect_none nextPattern_from_zero)

lemma select_function_steady:
  "\<lbrakk>\<forall>j<6. ps (BASE_FSEL_PIN + j); gCycle s \<noteq> 0\<rbrakk> \<Longrightarrow> select_function ps s = s"
  by (simp add: select_function_def functionSelect_none)

lemma loop_SomeD:
  assumes "loop cv inp s = Some s'"
  obtains p where "p \<in> set (gPatterns cv)"
    and "p = gPatterns cv ! unat (gCurrentPatternNumber (select_function (pin_levels inp) s))"
    and "s' = periodic_tasks (due_20ms inp) (due_60s inp) (FastLED_show (p (before_render inp s)))"
proof -
  let ?n = "unat (gCurrentPatternNumber (select_function (pin_levels inp) s))"
  from assms have n: "?n < ARRAY_SIZE_gPatterns"
    by (simp add: loop_def Let_def length_gPatterns split: if_splits)
  then have "gPatterns cv ! ?n \<in> set (gPatterns cv)" by (simp add: length_gPatterns)
  moreover from assms have
    "s' = periodic_tasks (due_20ms inp) (due_60s inp)
            (FastLED_show ((gPatterns cv ! ?n) (before_render inp s)))"
    unfolding loop_Some [OF n] by simp
  ultimately show thesis using that by blast
qed

lemma next_after_one:
  "nextPattern (s\<lparr>gCycle := 1, gCurrentPatternNumber := 1\<rparr>) = s\<lparr>gCycle := 1, gCurrentPatternNumber := 2\<rparr>"
proof -
  have "ucast (((ucast (1 :: 8 word) :: 16 word) + 1) mod word_of_nat ARRAY_SIZE_gPatterns) = (2 :: 8 word)"
    by (simp add: ARRAY_SIZE_gPatterns_def)
  then show ?thesis by (simp add: nextPattern_def)
qed

lemma loop_edge_frame:
  assumes high: "\<forall>j<6. pin_levels inp (BASE_FSEL_PIN + j)" and off: "gCycle s = 0"
  shows "loop cv inp s =
     Some (periodic_tasks (due_20ms inp) (due_60s inp) (FastLED_show (multi (before_render inp s))))"
proof -
  have sel: "select_function (pin_levels inp) s = s\<lparr>gCycle := 1, gCurrentPatternNumber := 1\<rparr>"
    using high off by (rule select_function_edge)
  have "unat (gCurrentPatternNumber (select_function (pin_levels inp) s)) < ARRAY_SIZE_gPatterns"
    by (simp add: sel ARRAY_SIZE_gPatterns_def)
  from loop_Some [OF this, of cv] show ?thesis
    by (simp add: sel gPatterns_def)
qed

lemma edge_frame_result:
  assumes high: "\<forall>j<6. ps (BASE_FSEL_PIN + j)" and off: "gCycle s = 0"
  shows "\<exists>s'. loop cv \<lparr>pin_levels = ps, due_20ms = d20, due_60s = d60\<rparr> s = Some s'
           \<and> gCycle s' = 1 \<and> gCurrentPatternNumber s' = (if d60 then 2 else 1)"
proof -
  let ?inp = "\<lparr>pin_levels = ps, due_20ms = d20, due_60s = d60\<rparr>"
  have sel: "select_function ps s = s\<lparr>gCycle := 1, gCurrentPatternNumber := 1\<rparr>"
    using high off by (rule select_function_edge)
  define u where "u = FastLED_show (multi (before_render ?inp s))"
  have lp: "loop cv ?inp s = Some (periodic_tasks d20 d60 u)"
    using loop_edge_frame [of ?inp s cv] high off by (simp add: u_def)
  have u: "gCycle u = 1" "gCurrentPatternNumber u = 1"
    by (simp_all add: u_def FastLED_show_def renderer_fields before_render_def sel)
  define t where "t = (if d20 then u\<lparr>gHue := gHue u + 1\<rparr> else u)"
  have t: "gCycle t = 1" "gCurrentPatternNumber t = 1"
    using u by (simp_all add: t_def)
  have t_eq: "t = t\<lparr>gCycle := 1, gCurrentPatternNumber := 1\<rparr>"
    using t by simp
  have nx: "nextPattern t = t\<lparr>gCycle := 1, gCurrentPatternNumber := 2\<rparr>"
    using next_after_one [of t] t_eq by simp
  have pt: "periodic_tasks d20 d60 u = (if d60 then nextPattern t else t)"
    by (simp add: periodic_tasks_def t_def)
  show ?thesis
    unfolding lp pt using t nx by simp
qed

lemma renderer_length:
  assumes "p \<in> set (gPatterns cv)" and "length (leds s) = NUM_LEDS"
  shows "length (leds (p s)) = NUM_LEDS"
  using assms
  by (auto elim!: gPatterns_cases simp: leds_solid leds_multi leds_rainbow)

lemma renderer_independent:
  assumes "p \<in> set (gPatterns cv)"
    and "length (leds s) = NUM_LEDS" and "length (leds s') = NUM_LEDS" and "gHue s' = gHue s"
  shows "leds (p s') = leds (p s)"
  using assms
  by (auto elim!: gPatterns_cases simp: leds_solid leds_multi leds_rainbow)

lemma power_on_index: "unat (gCurrentPatternNumber power_on) < ARRAY_SIZE_gPatterns"
  by (simp add: power_on_def ARRAY_SIZE_gPatterns_def)

lemma nextPattern_keeps_index_valid:
  "unat (gCurrentPatternNumber s) < ARRAY_SIZE_gPatterns
   \<Longrightarrow> unat (gCurrentPatternNumber (nextPattern s)) < ARRAY_SIZE_gPatterns"
  by (cases "gCycle s = 0")
     (simp_all add: nextPattern_disabled nextPattern_index ARRAY_SIZE_gPatterns_def)

lemma multi_differs_from_red: "leds (multi power_on) \<noteq> leds (red power_on)"
proof
  assume eq: "leds (multi power_on) = leds (red power_on)"
  have len: "length (leds power_on) = NUM_LEDS" by (simp add: power_on_def)
  have "leds (multi power_on) ! 0 = CRGB_of 80 255 0"
    by (simp add: leds_multi [OF len] NUM_LEDS_def nth_map_upt del: upt_Suc)
  moreover have "leds (red power_on) ! 0 = CRGB_of 0 255 0"
    by (simp add: leds_solid [OF len] NUM_LEDS_def)
  ultimately show False using eq by (simp add: CRGB_of_def)
qed

lemma periodic_tasks_hue:
  "gHue (periodic_tasks d20 d60 s) = (if d20 then gHue s + 1 else gHue s)"
  by (simp add: periodic_tasks_def Let_def nextPattern_fields)

lemma select_function_override:
  assumes "k < 6" and "\<not> ps (BASE_FSEL_PIN + k)" and "\<forall>j<k. ps (BASE_FSEL_PIN + j)"
  shows "functionSelect ps = word_of_nat k"
    and "gCycle (select_function ps s) = 0"
    and "unat (gCurrentPatternNumber (select_function ps s)) = k"
proof -
  from assms have k: "k < ARRAY_SIZE_gPatterns" by (simp add: ARRAY_SIZE_gPatterns_def)
  from assms k show fs: "functionSelect ps = word_of_nat k"
    unfolding functionSelect_def by (intro functionSelect_from_first) auto
  have ne: "sint (functionSelect ps) \<noteq> - 1"
    by (simp add: fs small_index_not_minus_one [OF k])
  show "gCycle (select_function ps s) = 0"
    using ne by (simp add: select_function_def Let_def)
  show "unat (gCurrentPatternNumber (select_function ps s)) = k"
    using ne by (simp add: select_function_def Let_def fs unat_small_index [OF k])
qed

lemma override_frame_result:
  assumes "k < 6" and "\<not> ps (BASE_FSEL_PIN + k)" and "\<forall>j<k. ps (BASE_FSEL_PIN + j)"
  shows "\<exists>s'. loop cv \<lparr>pin_levels = ps, due_20ms = d20, due_60s = d60\<rparr> s = Some s'
           \<and> gCycle s' = 0 \<and> unat (gCurrentPatternNumber s') = k"
proof -
  from assms have k: "k < ARRAY_SIZE_gPatterns" by (simp add: ARRAY_SIZE_gPatterns_def)
  note off = select_function_override(2) [OF assms, of s]
  note idx = select_function_override(3) [OF assms, of s]
  let ?inp = "\<lparr>pin_levels = ps, due_20ms = d20, due_60s = d60\<rparr>"
  define u where "u = FastLED_show ((gPatterns cv ! k) (before_render ?inp s))"
  have mem: "gPatterns cv ! k \<in> set (gPatterns cv)"
    using k by (simp add: length_gPatterns)
  have lp: "loop cv ?inp s = Some (periodic_tasks d20 d60 u)"
    using loop_Some [of ?inp s cv] idx k by (simp add: u_def)
  have c: "gCycle u = 0"
    using off by (simp add: u_def FastLED_show_def gPatterns_fields [OF mem] before_render_def)
  have i: "gCurrentPatternNumber u = gCurrentPatternNumber (select_function ps s)"
    by (simp add: u_def FastLED_show_def gPatterns_fields [OF mem] before_render_def)
  show ?thesis
    unfolding lp using periodic_tasks_disabled [OF c, of d20 d60] i idx by simp
qed

lemma periodic_tasks_split:
  "periodic_tasks d20 True s = nextPattern (periodic_tasks d20 False s)"
  "periodic_tasks d20 False s = (if d20 then s\<lparr>gHue := gHue s + 1\<rparr> else s)"
  by (simp_all add: periodic_tasks_def)

lemma loop_firing:
  "loop cv (inp\<lparr>due_60s := True\<rparr>) s
     = map_option nextPattern (loop cv (inp\<lparr>due_60s := False\<rparr>) s)"
  by (simp add: loop_def Let_def periodic_tasks_split(1))

lemma frame_input_expand:
  "inp\<lparr>due_60s := d\<rparr> = \<lparr>pin_levels = pin_levels inp, due_20ms = due_20ms inp, due_60s = d\<rparr>"
  by (cases inp) simp

lemma cycling_frame_quiet:
  assumes high: "\<forall>j<6. pin_levels inp (BASE_FSEL_PIN + j)" and on: "gCycle s \<noteq> 0"
    and inv: "unat (gCurrentPatternNumber s) < 6"
  shows "\<exists>s'. loop cv (inp\<lparr>due_60s := False\<rparr>) s = Some s'
           \<and> gCurrentPatternNumber s' = gCurrentPatternNumber s \<and> gCycle s' = gCycle s"
proof -
  let ?inp = "inp\<lparr>due_60s := False\<rparr>"
  let ?n = "unat (gCurrentPatternNumber s)"
  have sel: "select_function (pin_levels ?inp) s = s"
    using high on by (simp add: select_function_steady)
  have n: "?n < ARRAY_SIZE_gPatterns" using inv by (simp add: ARRAY_SIZE_gPatterns_def)
  then have mem: "gPatterns cv ! ?n \<in> set (gPatterns cv)" by (simp add: length_gPatterns)
  define u where "u = FastLED_show ((gPatterns cv ! ?n) (before_render ?inp s))"
  have lp: "loop cv ?inp s = Some (periodic_tasks (due_20ms inp) False u)"
    using loop_Some [of ?inp s cv] n sel by (simp add: u_def)
  have u: "gCycle u = gCycle s" "gCurrentPatternNumber u = gCurrentPatternNumber s"
    using sel by (simp_all add: u_def FastLED_show_def gPatterns_fields [OF mem] before_render_def)
  show ?thesis
    unfolding lp using u by (simp add: periodic_tasks_split(2))
qed

section \<open>The function selector\<close>

text \<open>
  Claim C1. On every frame the selector scans the six function pins in increasing
  order and the first grounded pin wins. When pin \<open>BASE_FSEL_PIN + k\<close> is grounded
  and every function pin below it is not, \<open>functionSelect\<close> returns \<open>k\<close>, the
  selection step clears the auto-cycle flag and sets the current pattern index to
  \<open>k\<close>, and both still hold when the whole frame is over, whatever the two timers
  do. When no function pin is grounded, \<open>functionSelect\<close> returns \<open>-1\<close>.
\<close>

theorem functionSelect_first_grounded_wins:
  "(k < 6 \<and> \<not> ps (BASE_FSEL_PIN + k) \<and> (\<forall>j<k. ps (BASE_FSEL_PIN + j))
      \<longrightarrow> sint (functionSelect ps) = int k
        \<and> gCycle (select_function ps s) = 0
        \<and> unat (gCurrentPatternNumber (select_function ps s)) = k
        \<and> (\<exists>s'. loop hsv2rgb \<lparr>pin_levels = ps, due_20ms = d20, due_60s = d60\<rparr> s = Some s'
               \<and> gCycle s' = 0 \<and> unat (gCurrentPatternNumber s') = k))
   \<and> ((\<forall>j<6. ps (BASE_FSEL_PIN + j)) \<longrightarrow> sint (functionSelect ps) = - 1)"
proof (intro conjI impI)
  assume "\<forall>j<6. ps (BASE_FSEL_PIN + j)"
  then have "functionSelect_from ps 0 = - 1"
    by (intro functionSelect_from_none) (simp add: ARRAY_SIZE_gPatterns_def)
  then show "sint (functionSelect ps) = - 1" by (simp add: functionSelect_def)
next
  assume a: "k < 6 \<and> \<not> ps (BASE_FSEL_PIN + k) \<and> (\<forall>j<k. ps (BASE_FSEL_PIN + j))"
  then have k: "k < 6" and low: "\<not> ps (BASE_FSEL_PIN + k)"
    and high: "\<forall>j<k. ps (BASE_FSEL_PIN + j)" by simp_all
  from k have "k < ARRAY_SIZE_gPatterns" by (simp add: ARRAY_SIZE_gPatterns_def)
  then show "sint (functionSelect ps) = int k"
    by (simp add: select_function_override(1) [OF k low high] sint_small_index)
  show "gCycle (select_function ps s) = 0"
    by (rule select_function_override(2) [OF k low high])
  show "unat (gCurrentPatternNumber (select_function ps s)) = k"
    by (rule select_function_override(3) [OF k low high])
  show "\<exists>s'. loop hsv2rgb \<lparr>pin_levels = ps, due_20ms = d20, due_60s = d60\<rparr> s = Some s'
          \<and> gCycle s' = 0 \<and> unat (gCurrentPatternNumber s') = k"
    by (rule override_frame_result [OF k low high])
qed

text \<open>
  Pins 4 and 6 grounded: offset 2 wins over offset 4. All pins high: no override.
\<close>

theorem functionSelect_first_grounded_wins_witness:
  "sint (functionSelect (\<lambda>p. p \<noteq> 4 \<and> p \<noteq> 6)) = 2
   \<and> gCycle (select_function (\<lambda>p. p \<noteq> 4 \<and> p \<noteq> 6) (power_on\<lparr>gCycle := 1\<rparr>)) = 0
   \<and> unat (gCurrentPatternNumber (select_function (\<lambda>p. p \<noteq> 4 \<and> p \<noteq> 6) (power_on\<lparr>gCycle := 1\<rparr>))) = 2
   \<and> sint (functionSelect (\<lambda>p. True)) = - 1"
proof -
  have low: "(2::nat) < 6 \<and> \<not> (BASE_FSEL_PIN + 2 \<noteq> 4 \<and> BASE_FSEL_PIN + 2 \<noteq> 6)
      \<and> (\<forall>j<2. BASE_FSEL_PIN + j \<noteq> 4 \<and> BASE_FSEL_PIN + j \<noteq> 6)"
    by (simp add: BASE_FSEL_PIN_def)
  have high: "\<forall>j<6. (\<lambda>p. True) (BASE_FSEL_PIN + j)" by simp
  note grounded = functionSelect_first_grounded_wins
      [of 2 "\<lambda>p. p \<noteq> 4 \<and> p \<noteq> 6" "power_on\<lparr>gCycle := 1\<rparr>" "\<lambda>h. CRGB_of 0 0 0" False False,
       THEN conjunct1, THEN mp, OF low]
  note floating = functionSelect_first_grounded_wins
      [of 0 "\<lambda>p. True" power_on "\<lambda>h. CRGB_of 0 0 0" False False, THEN conjunct2, THEN mp, OF high]
  from grounded floating show ?thesis by simp
qed

section \<open>The brightness selector\<close>

text \<open>
  Claim C2. The brightness is a function of the levels of the two brightness pins
  alone: 63 when neither is grounded, 127 when only \<open>BSEL_PIN1\<close> is grounded, 191
  when only \<open>BSEL_PIN2\<close> is grounded, 255 when both are. Every frame hands exactly
  this value to the strip driver, whatever the state before the frame.
\<close>

theorem brightness_select_table:
  "brightness_select ps =
     (if ps BSEL_PIN2 then (if ps BSEL_PIN1 then 63 else 127)
      else (if ps BSEL_PIN1 then 191 else 255))
   \<and> (loop hsv2rgb inp s = Some s' \<longrightarrow>
        fl_brightness s' = brightness_select (pin_levels inp)
        \<and> fst (last (fl_shown s')) = brightness_select (pin_levels inp))"
proof (intro conjI impI)
  show "brightness_select ps =
     (if ps BSEL_PIN2 then (if ps BSEL_PIN1 then 63 else 127)
      else (if ps BSEL_PIN1 then 191 else 255))"
    by (cases "ps BSEL_PIN1"; cases "ps BSEL_PIN2")
       (simp_all add: brightness_select_def digitalRead_def not_level_bit)
next
  assume lp: "loop hsv2rgb inp s = Some s'"
  let ?s1 = "select_function (pin_levels inp) s"
  let ?n = "unat (gCurrentPatternNumber ?s1)"
  let ?s4 = "FastLED_show ((gPatterns hsv2rgb ! ?n) (before_render inp s))"
  from lp have n: "?n < ARRAY_SIZE_gPatterns"
    by (simp add: loop_def Let_def length_gPatterns split: if_splits)
  then have mem: "gPatterns hsv2rgb ! ?n \<in> set (gPatterns hsv2rgb)"
    by (simp add: length_gPatterns)
  from lp have s': "s' = periodic_tasks (due_20ms inp) (due_60s inp) ?s4"
    unfolding loop_Some [OF n] by simp
  have pt: "fl_brightness (periodic_tasks a c t) = fl_brightness t"
           "fl_shown (periodic_tasks a c t) = fl_shown t" for a c t
    by (simp_all add: periodic_tasks_def Let_def nextPattern_fields)
  show "fl_brightness s' = brightness_select (pin_levels inp)"
    by (simp add: s' pt FastLED_show_def gPatterns_fields [OF mem] before_render_def)
  show "fst (last (fl_shown s')) = brightness_select (pin_levels inp)"
    by (simp add: s' pt FastLED_show_def gPatterns_fields [OF mem] before_render_def)
qed


text \<open>A frame after power-up with only \<open>BSEL_PIN1\<close> grounded runs at brightness 127.\<close>

theorem brightness_select_table_witness:
  "\<exists>s'. loop (\<lambda>h. CRGB_of 0 0 0)
          \<lparr>pin_levels = (\<lambda>p. p \<noteq> 10), due_20ms = False, due_60s = False\<rparr> power_on = Some s'
        \<and> fl_brightness s' = 127"
proof -
  let ?inp = "\<lparr>pin_levels = (\<lambda>p. p \<noteq> 10), due_20ms = False, due_60s = False\<rparr>"
  have "unat (gCurrentPatternNumber power_on) < ARRAY_SIZE_gPatterns"
    by (simp add: power_on_def ARRAY_SIZE_gPatterns_def)
  from loop_index [OF this, of "\<lambda>h. CRGB_of 0 0 0" ?inp]
  obtain s' where lp: "loop (\<lambda>h. CRGB_of 0 0 0) ?inp power_on = Some s'" by blast
  have "fl_brightness s' = brightness_select (\<lambda>p. p \<noteq> 10)"
    using brightness_select_table
            [of "\<lambda>p. p \<noteq> 10" "\<lambda>h. CRGB_of 0 0 0" ?inp power_on s', THEN conjunct2, THEN mp, OF lp]
    by simp
  also have "\<dots> = 127"
    using brightness_select_table
            [of "\<lambda>p. p \<noteq> 10" "\<lambda>h. CRGB_of 0 0 0" ?inp power_on s', THEN conjunct1]
    by (simp add: BSEL_PIN1_def BSEL_PIN2_def)
  finally show ?thesis using lp by simp
qed

section \<open>Start-up state\<close>

text \<open>
  Claim C3, as stated: at start-up the selector state is index 0, auto-cycle enabled,
  hue 0. The initialiser of \<open>gCycle\<close> on line 60 is \<open>0\<close>, which is the disabled
  value tested by \<open>!gCycle\<close>, so the conjunction fails on its middle part.
\<close>

theorem power_on_auto_cycle_not_enabled:
  "\<not> (gCurrentPatternNumber power_on = 0 \<and> gCycle power_on \<noteq> 0 \<and> gHue power_on = 0)"
  by (simp add: power_on_def)

text \<open>
  Claim C3, amended: the static initialisers set the current pattern index to 0, the
  auto-cycle flag to 0 (disabled) and the hue to 0.
\<close>

theorem power_on_selector_state:
  "gCurrentPatternNumber power_on = 0 \<and> gCycle power_on = 0 \<and> gHue power_on = 0"
  by (simp add: power_on_def)

section \<open>The cycle-enable edge\<close>

text \<open>
  Claim C4, as stated, has the current pattern index equal to 1 right after the
  transition frame. The frame does not end with the selection step: line 125 runs
  afterwards, and when the 60 s test succeeds in that same iteration \<open>nextPattern\<close>
  finds the flag already set and advances once more. Here the first frame after
  power-up has pin 5 grounded (pattern 3 by jumper), the second frame has the jumper
  gone and the 60 s timer due: the second frame ends with index 2.
\<close>

theorem edge_frame_with_timer_ends_at_two:
  "map_option gCurrentPatternNumber
     (run (\<lambda>h. CRGB_of 0 0 0)
        [\<lparr>pin_levels = (\<lambda>p. p \<noteq> 5), due_20ms = False, due_60s = False\<rparr>,
         \<lparr>pin_levels = (\<lambda>p. True), due_20ms = False, due_60s = True\<rparr>]
        power_on) = Some 2"
proof -
  have "(3::nat) < 6" "\<not> (BASE_FSEL_PIN + 3 \<noteq> 5)" "\<forall>j<3. BASE_FSEL_PIN + j \<noteq> 5"
    by (simp_all add: BASE_FSEL_PIN_def)
  from override_frame_result [of 3 "\<lambda>p. p \<noteq> 5", OF this, of "\<lambda>h. CRGB_of 0 0 0" False False power_on]
  obtain s1 where
    first: "loop (\<lambda>h. CRGB_of 0 0 0)
              \<lparr>pin_levels = (\<lambda>p. p \<noteq> 5), due_20ms = False, due_60s = False\<rparr> power_on = Some s1"
    and off: "gCycle s1 = 0" by blast
  have high: "\<forall>j<6. (\<lambda>p. True) (BASE_FSEL_PIN + j)" by simp
  from edge_frame_result [OF high off, of "\<lambda>h. CRGB_of 0 0 0" False True]
  obtain s2 where
    second: "loop (\<lambda>h. CRGB_of 0 0 0)
               \<lparr>pin_levels = (\<lambda>p. True), due_20ms = False, due_60s = True\<rparr> s1 = Some s2"
    and two: "gCurrentPatternNumber s2 = 2" by auto
  show ?thesis by (simp add: first second two)
qed

text \<open>
  Claim C4, amended. On a frame where no function pin is grounded and auto-cycle was
  disabled, the selection step sets the flag, resets the index to 0 and runs one
  advance, so the index is 1 after the selection step; the frame as a whole succeeds
  and ends with the flag set and the index at 1, or at 2 when the 60 s timer fires in
  the same frame. The reset-and-advance happens only on that edge: with no function
  pin grounded and auto-cycle already enabled, the selection step changes nothing.
\<close>

theorem cycle_enable_edge:
  "((\<forall>j<6. ps (BASE_FSEL_PIN + j)) \<and> gCycle s = 0 \<longrightarrow>
      select_function ps s = nextPattern (s\<lparr>gCycle := 1, gCurrentPatternNumber := 0\<rparr>)
      \<and> gCycle (select_function ps s) = 1
      \<and> gCurrentPatternNumber (select_function ps s) = 1
      \<and> (\<exists>s'. loop hsv2rgb \<lparr>pin_levels = ps, due_20ms = d20, due_60s = d60\<rparr> s = Some s'
             \<and> gCycle s' = 1
             \<and> gCurrentPatternNumber s' = (if d60 then 2 else 1)))
   \<and> ((\<forall>j<6. ps (BASE_FSEL_PIN + j)) \<and> gCycle s \<noteq> 0 \<longrightarrow> select_function ps s = s)"
proof (intro conjI impI)
  assume "(\<forall>j<6. ps (BASE_FSEL_PIN + j)) \<and> gCycle s \<noteq> 0"
  then show "select_function ps s = s" by (simp add: select_function_steady)
next
  assume a: "(\<forall>j<6. ps (BASE_FSEL_PIN + j)) \<and> gCycle s = 0"
  then have sel: "select_function ps s = s\<lparr>gCycle := 1, gCurrentPatternNumber := 1\<rparr>"
    by (simp add: select_function_edge)
  show "select_function ps s = nextPattern (s\<lparr>gCycle := 1, gCurrentPatternNumber := 0\<rparr>)"
    by (simp add: sel nextPattern_from_zero)
  show "gCycle (select_function ps s) = 1" by (simp add: sel)
  show "gCurrentPatternNumber (select_function ps s) = 1" by (simp add: sel)
  from a show "\<exists>s'. loop hsv2rgb \<lparr>pin_levels = ps, due_20ms = d20, due_60s = d60\<rparr> s = Some s'
           \<and> gCycle s' = 1 \<and> gCurrentPatternNumber s' = (if d60 then 2 else 1)"
    by (intro edge_frame_result) simp_all
qed

text \<open>
  Jumper on pattern 3 removed: the selection step lands on index 1. Already cycling at
  index 3 with no jumper: the selection step leaves the state as it is.
\<close>

theorem cycle_enable_edge_witness:
  "gCurrentPatternNumber (select_function (\<lambda>p. True) (power_on\<lparr>gCurrentPatternNumber := 3\<rparr>)) = 1
   \<and> select_function (\<lambda>p. True) (power_on\<lparr>gCycle := 1, gCurrentPatternNumber := 3\<rparr>)
       = power_on\<lparr>gCycle := 1, gCurrentPatternNumber := 3\<rparr>"
proof -
  have edge: "(\<forall>j<6. (\<lambda>p. True) (BASE_FSEL_PIN + j)) \<and> gCycle (power_on\<lparr>gCurrentPatternNumber := 3\<rparr>) = 0"
    by (simp add: power_on_def)
  have steady: "(\<forall>j<6. (\<lambda>p. True) (BASE_FSEL_PIN + j))
      \<and> gCycle (power_on\<lparr>gCycle := 1, gCurrentPatternNumber := 3\<rparr>) \<noteq> 0"
    by simp
  note a = cycle_enable_edge
    [of "\<lambda>p. True" "power_on\<lparr>gCurrentPatternNumber := 3\<rparr>" "\<lambda>h. CRGB_of 0 0 0" False False,
     THEN conjunct1, THEN mp, OF edge, THEN conjunct2, THEN conjunct2, THEN conjunct1]
  note b = cycle_enable_edge
    [of "\<lambda>p. True" "power_on\<lparr>gCycle := 1, gCurrentPatternNumber := 3\<rparr>" "\<lambda>h. CRGB_of 0 0 0" False False,
     THEN conjunct2, THEN mp, OF steady]
  from a b show ?thesis by (rule conjI)
qed

section \<open>The auto-advance timer\<close>

text \<open>
  Claim C6. A firing of the 60 s timer is one call of \<open>nextPattern\<close>, made after
  everything else in the iteration: the periodic blocks with the firing equal
  \<open>nextPattern\<close> applied to the periodic blocks without it, whether or not the 20 ms
  block fires too, and a frame with the firing equals \<open>nextPattern\<close> applied to the
  same frame without it. With auto-cycle enabled \<open>nextPattern\<close> replaces the current
  pattern index by \<open>(index + 1) mod 6\<close> and changes nothing else, in particular
  not the flag and not the hue. With auto-cycle disabled it returns the state it was
  given, so nothing is stored from which a missed advance could be made up later.
  For whole frames: a frame that starts cycling at a valid index with no function pin
  grounded ends at \<open>(index + 1) mod 6\<close> when the timer fires and at the same index
  when it does not, with the flag as it was; a frame with a function pin grounded ends
  the same with and without the firing, at the pin's offset with the flag clear.
\<close>

theorem auto_advance_firing:
  "periodic_tasks False True s = nextPattern s
   \<and> periodic_tasks d20 True s = nextPattern (periodic_tasks d20 False s)
   \<and> periodic_tasks d20 False s = (if d20 then s\<lparr>gHue := gHue s + 1\<rparr> else s)
   \<and> loop hsv2rgb (inp\<lparr>due_60s := True\<rparr>) s
        = map_option nextPattern (loop hsv2rgb (inp\<lparr>due_60s := False\<rparr>) s)
   \<and> (gCycle s \<noteq> 0 \<longrightarrow>
        nextPattern s =
          s\<lparr>gCurrentPatternNumber := word_of_nat ((unat (gCurrentPatternNumber s) + 1) mod 6)\<rparr>
        \<and> unat (gCurrentPatternNumber (nextPattern s)) = (unat (gCurrentPatternNumber s) + 1) mod 6
        \<and> gCycle (nextPattern s) = gCycle s \<and> gHue (nextPattern s) = gHue s)
   \<and> (gCycle s = 0 \<longrightarrow> nextPattern s = s)
   \<and> ((\<forall>j<6. pin_levels inp (BASE_FSEL_PIN + j)) \<and> gCycle s \<noteq> 0
        \<and> unat (gCurrentPatternNumber s) < 6 \<longrightarrow>
        (\<exists>s'. loop hsv2rgb (inp\<lparr>due_60s := False\<rparr>) s = Some s'
             \<and> gCurrentPatternNumber s' = gCurrentPatternNumber s \<and> gCycle s' = gCycle s)
        \<and> (\<exists>s'. loop hsv2rgb (inp\<lparr>due_60s := True\<rparr>) s = Some s'
             \<and> unat (gCurrentPatternNumber s') = (unat (gCurrentPatternNumber s) + 1) mod 6
             \<and> gCycle s' = gCycle s))
   \<and> (k < 6 \<and> \<not> pin_levels inp (BASE_FSEL_PIN + k) \<and> (\<forall>j<k. pin_levels inp (BASE_FSEL_PIN + j)) \<longrightarrow>
        loop hsv2rgb (inp\<lparr>due_60s := True\<rparr>) s = loop hsv2rgb (inp\<lparr>due_60s := False\<rparr>) s
        \<and> (\<exists>s'. loop hsv2rgb (inp\<lparr>due_60s := True\<rparr>) s = Some s'
               \<and> unat (gCurrentPatternNumber s') = k \<and> gCycle s' = 0))"
proof (intro conjI impI)
  show "periodic_tasks False True s = nextPattern s"
    by (simp add: periodic_tasks_def)
  show "periodic_tasks d20 True s = nextPattern (periodic_tasks d20 False s)"
    by (rule periodic_tasks_split)
  show "periodic_tasks d20 False s = (if d20 then s\<lparr>gHue := gHue s + 1\<rparr> else s)"
    by (rule periodic_tasks_split)
  show "loop hsv2rgb (inp\<lparr>due_60s := True\<rparr>) s
        = map_option nextPattern (loop hsv2rgb (inp\<lparr>due_60s := False\<rparr>) s)"
    by (rule loop_firing)
next
  assume on: "gCycle s \<noteq> 0"
  then show "nextPattern s =
      s\<lparr>gCurrentPatternNumber := word_of_nat ((unat (gCurrentPatternNumber s) + 1) mod 6)\<rparr>"
    by (simp add: nextPattern_def word_of_nat_advance)
  from on show "unat (gCurrentPatternNumber (nextPattern s)) = (unat (gCurrentPatternNumber s) + 1) mod 6"
    by (rule nextPattern_index)
  show "gCycle (nextPattern s) = gCycle s" by (rule nextPattern_fields)
  show "gHue (nextPattern s) = gHue s" by (rule nextPattern_fields)
next
  assume "gCycle s = 0"
  then show "nextPattern s = s" by (rule nextPattern_disabled)
next
  assume a: "(\<forall>j<6. pin_levels inp (BASE_FSEL_PIN + j)) \<and> gCycle s \<noteq> 0
        \<and> unat (gCurrentPatternNumber s) < 6"
  then obtain s0 where
    quiet: "loop hsv2rgb (inp\<lparr>due_60s := False\<rparr>) s = Some s0"
    and s0: "gCurrentPatternNumber s0 = gCurrentPatternNumber s" "gCycle s0 = gCycle s"
    using cycling_frame_quiet [of inp s hsv2rgb] by blast
  show "\<exists>s'. loop hsv2rgb (inp\<lparr>due_60s := False\<rparr>) s = Some s'
             \<and> gCurrentPatternNumber s' = gCurrentPatternNumber s \<and> gCycle s' = gCycle s"
    using quiet s0 by simp
  from a s0 have on: "gCycle s0 \<noteq> 0" by simp
  have "loop hsv2rgb (inp\<lparr>due_60s := True\<rparr>) s = Some (nextPattern s0)"
    by (simp only: loop_firing quiet option.map)
  moreover have "unat (gCurrentPatternNumber (nextPattern s0)) = (unat (gCurrentPatternNumber s) + 1) mod 6"
    using nextPattern_index [OF on] s0 by simp
  moreover have "gCycle (nextPattern s0) = gCycle s"
    using s0 by (simp add: nextPattern_fields)
  ultimately show "\<exists>s'. loop hsv2rgb (inp\<lparr>due_60s := True\<rparr>) s = Some s'
             \<and> unat (gCurrentPatternNumber s') = (unat (gCurrentPatternNumber s) + 1) mod 6
             \<and> gCycle s' = gCycle s"
    by simp
next
  assume a: "k < 6 \<and> \<not> pin_levels inp (BASE_FSEL_PIN + k) \<and> (\<forall>j<k. pin_levels inp (BASE_FSEL_PIN + j))"
  then have k: "k < 6" and low: "\<not> pin_levels inp (BASE_FSEL_PIN + k)"
    and high: "\<forall>j<k. pin_levels inp (BASE_FSEL_PIN + j)" by simp_all
  from override_frame_result [OF k low high, of hsv2rgb "due_20ms inp" False s]
  obtain s0 where
    quiet: "loop hsv2rgb (inp\<lparr>due_60s := False\<rparr>) s = Some s0"
    and s0: "gCycle s0 = 0" "unat (gCurrentPatternNumber s0) = k"
    by (auto simp: frame_input_expand)
  have fired: "loop hsv2rgb (inp\<lparr>due_60s := True\<rparr>) s = Some s0"
    by (simp only: loop_firing quiet option.map nextPattern_disabled [OF s0(1)])
  show "loop hsv2rgb (inp\<lparr>due_60s := True\<rparr>) s = loop hsv2rgb (inp\<lparr>due_60s := False\<rparr>) s"
    by (simp only: fired quiet)
  show "\<exists>s'. loop hsv2rgb (inp\<lparr>due_60s := True\<rparr>) s = Some s'
               \<and> unat (gCurrentPatternNumber s') = k \<and> gCycle s' = 0"
    using fired s0 by simp
qed

text \<open>
  Enabled at index 5: the firing wraps to 0. Disabled at index 5: nothing changes.
  A frame cycling at index 5 with both timers firing ends at index 0; the same frame
  with pin 4 grounded ends at index 2 with the flag clear.
\<close>

theorem auto_advance_firing_witness:
  "gCurrentPatternNumber (nextPattern (power_on\<lparr>gCycle := 1, gCurrentPatternNumber := 5\<rparr>)) = 0
   \<and> nextPattern (power_on\<lparr>gCurrentPatternNumber := 5\<rparr>) = power_on\<lparr>gCurrentPatternNumber := 5\<rparr>
   \<and> (\<exists>s'. loop (\<lambda>h. CRGB_of 0 0 0)
          \<lparr>pin_levels = (\<lambda>p. True), due_20ms = True, due_60s = True\<rparr>
          (power_on\<lparr>gCycle := 1, gCurrentPatternNumber := 5\<rparr>) = Some s'
        \<and> unat (gCurrentPatternNumber s') = 0 \<and> gCycle s' = 1)
   \<and> (\<exists>s'. loop (\<lambda>h. CRGB_of 0 0 0)
          \<lparr>pin_levels = (\<lambda>p. p \<noteq> 4), due_20ms = True, due_60s = True\<rparr>
          (power_on\<lparr>gCycle := 1, gCurrentPatternNumber := 5\<rparr>) = Some s'
        \<and> unat (gCurrentPatternNumber s') = 2 \<and> gCycle s' = 0)"
proof -
  let ?on = "power_on\<lparr>gCycle := 1, gCurrentPatternNumber := 5\<rparr>"
  let ?off = "power_on\<lparr>gCurrentPatternNumber := 5\<rparr>"
  let ?cv = "\<lambda>h. CRGB_of 0 0 0"
  let ?free = "\<lparr>pin_levels = (\<lambda>p. True), due_20ms = True, due_60s = True\<rparr>"
  let ?jump = "\<lparr>pin_levels = (\<lambda>p. p \<noteq> 4), due_20ms = True, due_60s = True\<rparr>"
  have on: "gCycle ?on \<noteq> 0" by simp
  have off: "gCycle ?off = 0" by (simp add: power_on_def)
  have cyc: "(\<forall>j<6. pin_levels ?free (BASE_FSEL_PIN + j)) \<and> gCycle ?on \<noteq> 0
        \<and> unat (gCurrentPatternNumber ?on) < 6" by simp
  have ovr: "(2::nat) < 6 \<and> \<not> pin_levels ?jump (BASE_FSEL_PIN + 2)
        \<and> (\<forall>j<2. pin_levels ?jump (BASE_FSEL_PIN + j))"
    by (simp add: BASE_FSEL_PIN_def)
  note enabled = auto_advance_firing [of ?on False ?cv ?free 0,
     THEN conjunct2, THEN conjunct2, THEN conjunct2, THEN conjunct2, THEN conjunct1, THEN mp, OF on,
     THEN conjunct1]
  note disabled = auto_advance_firing [of ?off False ?cv ?free 0,
     THEN conjunct2, THEN conjunct2, THEN conjunct2, THEN conjunct2, THEN conjunct2,
     THEN conjunct1, THEN mp, OF off]
  note cycling = auto_advance_firing [of ?on False ?cv ?free 0,
     THEN conjunct2, THEN conjunct2, THEN conjunct2, THEN conjunct2, THEN conjunct2,
     THEN conjunct2, THEN conjunct1, THEN mp, OF cyc, THEN conjunct2]
  note jumper = auto_advance_firing [of ?on False ?cv ?jump 2,
     THEN conjunct2, THEN conjunct2, THEN conjunct2, THEN conjunct2, THEN conjunct2,
     THEN conjunct2, THEN conjunct2, THEN mp, OF ovr, THEN conjunct2]
  have a: "gCurrentPatternNumber (nextPattern ?on) = 0" using enabled by simp
  from a disabled cycling jumper show ?thesis by simp
qed

section \<open>The hue timer\<close>


section \<open>Validity of the pattern index\<close>

text \<open>
  Claim C5. The current pattern index is a valid index into the pattern table,
  \<open>0 \<le> index < 6\<close>: at power-up; after any number of frames run from power-up,
  none of which reaches the out-of-table call; and after each single operation on a
  state whose index is valid, namely the selection step (override assignment or
  cycle-enable edge), \<open>nextPattern\<close>, the periodic blocks under any combination of
  timer firings, and a whole frame.
\<close>

theorem pattern_index_always_valid:
  "unat (gCurrentPatternNumber power_on) < 6
   \<and> (\<exists>s'. run hsv2rgb inps power_on = Some s' \<and> unat (gCurrentPatternNumber s') < 6)
   \<and> (unat (gCurrentPatternNumber s) < 6 \<longrightarrow>
        unat (gCurrentPatternNumber (select_function ps s)) < 6
        \<and> unat (gCurrentPatternNumber (nextPattern s)) < 6
        \<and> unat (gCurrentPatternNumber (periodic_tasks d20 d60 s)) < 6
        \<and> (\<exists>s'. loop hsv2rgb inp s = Some s' \<and> unat (gCurrentPatternNumber s') < 6))"
proof (intro conjI impI)
  show "unat (gCurrentPatternNumber power_on) < 6"
    using power_on_index by (simp add: ARRAY_SIZE_gPatterns_def)
  show "\<exists>s'. run hsv2rgb inps power_on = Some s' \<and> unat (gCurrentPatternNumber s') < 6"
    using run_index [OF power_on_index, of hsv2rgb inps] by (simp add: ARRAY_SIZE_gPatterns_def)
next
  assume "unat (gCurrentPatternNumber s) < 6"
  then have inv: "unat (gCurrentPatternNumber s) < ARRAY_SIZE_gPatterns"
    by (simp add: ARRAY_SIZE_gPatterns_def)
  show "unat (gCurrentPatternNumber (select_function ps s)) < 6"
    using select_function_index [OF inv, of ps] by (simp add: ARRAY_SIZE_gPatterns_def)
  show "unat (gCurrentPatternNumber (nextPattern s)) < 6"
    using nextPattern_keeps_index_valid [OF inv] by (simp add: ARRAY_SIZE_gPatterns_def)
  show "unat (gCurrentPatternNumber (periodic_tasks d20 d60 s)) < 6"
    using periodic_tasks_index [OF inv, of d20 d60] by (simp add: ARRAY_SIZE_gPatterns_def)
  show "\<exists>s'. loop hsv2rgb inp s = Some s' \<and> unat (gCurrentPatternNumber s') < 6"
    using loop_index [OF inv, of hsv2rgb inp] by (simp add: ARRAY_SIZE_gPatterns_def)
qed

text \<open>
  Cycling at index 5: the advance and a selection step with pin 7 grounded both stay
  inside the table.
\<close>

theorem pattern_index_always_valid_witness:
  "unat (gCurrentPatternNumber (nextPattern (power_on\<lparr>gCycle := 1, gCurrentPatternNumber := 5\<rparr>))) < 6
   \<and> unat (gCurrentPatternNumber (select_function (\<lambda>p. p \<noteq> 7)
               (power_on\<lparr>gCycle := 1, gCurrentPatternNumber := 5\<rparr>))) < 6"
proof -
  let ?s = "power_on\<lparr>gCycle := 1, gCurrentPatternNumber := 5\<rparr>"
  have inv: "unat (gCurrentPatternNumber ?s) < 6" by simp
  note r = pattern_index_always_valid
     [of "\<lambda>h. CRGB_of 0 0 0" "[]" ?s "\<lambda>p. p \<noteq> 7" False True
         "\<lparr>pin_levels = (\<lambda>p. p \<noteq> 7), due_20ms = False, due_60s = True\<rparr>",
      THEN conjunct2, THEN conjunct2, THEN mp, OF inv]
  from r show ?thesis by simp
qed

section \<open>The renderer contract\<close>

text \<open>
  Claim C8. The buffer has 50 elements and the table holds red, multi, blue, green,
  white and rainbow. For each of them, on a buffer of that length, one call returns a
  buffer of the same length whose every element is fixed by the renderer and the hue
  alone: two calls from any two prior buffers (at the same hue) agree at every
  position, so no element keeps what the prior buffer held there. For \<open>rainbow\<close>
  this rests on the model of the library function \<open>fill_rainbow\<close> given above.
\<close>

theorem renderers_overwrite_whole_buffer:
  "NUM_LEDS = 50
   \<and> gPatterns hsv2rgb = [red, multi, blue, green, white, rainbow hsv2rgb]
   \<and> (p \<in> set (gPatterns hsv2rgb) \<and> length (leds s) = NUM_LEDS
        \<and> length (leds s') = NUM_LEDS \<and> gHue s' = gHue s
      \<longrightarrow> length (leds (p s)) = NUM_LEDS
          \<and> (\<forall>i<NUM_LEDS. leds (p s') ! i = leds (p s) ! i)
          \<and> leds (p s') = leds (p s))"
proof (intro conjI impI)
  show "NUM_LEDS = 50" by (simp add: NUM_LEDS_def)
  show "gPatterns hsv2rgb = [red, multi, blue, green, white, rainbow hsv2rgb]"
    by (simp add: gPatterns_def)
next
  assume a: "p \<in> set (gPatterns hsv2rgb) \<and> length (leds s) = NUM_LEDS
        \<and> length (leds s') = NUM_LEDS \<and> gHue s' = gHue s"
  then show "length (leds (p s)) = NUM_LEDS"
    using renderer_length [of p hsv2rgb s] by simp
  from a show same: "leds (p s') = leds (p s)"
    using renderer_independent [of p hsv2rgb s s'] by simp
  then show "\<forall>i<NUM_LEDS. leds (p s') ! i = leds (p s) ! i" by simp
qed

text \<open>\<open>red\<close> on an all-black buffer and on an all-white buffer gives the same 50 pixels.\<close>

theorem renderers_overwrite_whole_buffer_witness:
  "leds (red (power_on\<lparr>leds := replicate 50 (CRGB_of 255 255 255)\<rparr>)) = leds (red power_on)
   \<and> length (leds (red power_on)) = 50"
proof -
  let ?s' = "power_on\<lparr>leds := replicate 50 (CRGB_of 255 255 255)\<rparr>"
  have hyp: "red \<in> set (gPatterns (\<lambda>h. CRGB_of 0 0 0)) \<and> length (leds power_on) = NUM_LEDS
        \<and> length (leds ?s') = NUM_LEDS \<and> gHue ?s' = gHue power_on"
    by (simp add: gPatterns_def power_on_def NUM_LEDS_def)
  note r = renderers_overwrite_whole_buffer
     [of "\<lambda>h. CRGB_of 0 0 0" red power_on ?s', THEN conjunct2, THEN conjunct2, THEN mp, OF hyp]
  from r show ?thesis by (simp add: NUM_LEDS_def)
qed

section \<open>The first frame\<close>

text \<open>
  Claim C9. The auto-cycle flag starts at 0, so when no function pin is grounded in
  the first iteration of \<open>loop\<close> after power-up, the selection step takes the
  cycle-enable edge and sets the current pattern index to 1. Entry 1 of the table is
  \<open>multi\<close> and entry 0 is \<open>red\<close>; the one frame sent to the strip by that
  iteration is the buffer drawn by \<open>multi\<close>, which is not the buffer \<open>red\<close> draws.
\<close>

theorem first_frame_without_jumpers_shows_multi:
  "(\<forall>j<6. pin_levels inp (BASE_FSEL_PIN + j)) \<longrightarrow>
     gCycle power_on = 0
     \<and> gCurrentPatternNumber (select_function (pin_levels inp) power_on) = 1
     \<and> gPatterns hsv2rgb ! 1 = multi \<and> gPatterns hsv2rgb ! 0 = red
     \<and> (\<exists>s'. loop hsv2rgb inp power_on = Some s'
            \<and> fl_shown s' = [(brightness_select (pin_levels inp), leds (multi power_on))]
            \<and> leds s' = leds (multi power_on))
     \<and> leds (multi power_on) \<noteq> leds (red power_on)"
proof (intro impI conjI)
  show "gCycle power_on = 0" by (simp add: power_on_def)
  show "gPatterns hsv2rgb ! 1 = multi" "gPatterns hsv2rgb ! 0 = red"
    by (simp_all add: gPatterns_def)
  show "leds (multi power_on) \<noteq> leds (red power_on)" by (rule multi_differs_from_red)
next
  assume high: "\<forall>j<6. pin_levels inp (BASE_FSEL_PIN + j)"
  have off: "gCycle power_on = 0" by (simp add: power_on_def)
  show "gCurrentPatternNumber (select_function (pin_levels inp) power_on) = 1"
    by (simp add: select_function_edge [OF high off])
  define u where "u = before_render inp power_on"
  have len: "length (leds power_on) = NUM_LEDS" "length (leds u) = NUM_LEDS"
    by (simp_all add: u_def before_render_def select_function_fields power_on_def)
  have same: "leds (multi u) = leds (multi power_on)"
    by (simp add: leds_multi len)
  have u: "fl_brightness u = brightness_select (pin_levels inp)" "fl_shown u = []"
    by (simp_all add: u_def before_render_def select_function_fields) (simp add: power_on_def)
  have pt: "fl_shown (periodic_tasks a c t) = fl_shown t" "leds (periodic_tasks a c t) = leds t"
    for a c t
    by (simp_all add: periodic_tasks_def Let_def nextPattern_fields)
  have lp: "loop hsv2rgb inp power_on =
      Some (periodic_tasks (due_20ms inp) (due_60s inp) (FastLED_show (multi u)))"
    unfolding u_def using high off by (rule loop_edge_frame)
  show "\<exists>s'. loop hsv2rgb inp power_on = Some s'
            \<and> fl_shown s' = [(brightness_select (pin_levels inp), leds (multi power_on))]
            \<and> leds s' = leds (multi power_on)"
    unfolding lp by (simp add: pt FastLED_show_def renderer_fields u same)
qed

text \<open>All pins high in the first frame.\<close>

theorem first_frame_without_jumpers_shows_multi_witness:
  "gCurrentPatternNumber (select_function (\<lambda>p. True) power_on) = 1
   \<and> leds (multi power_on) \<noteq> leds (red power_on)"
proof -
  let ?inp = "\<lparr>pin_levels = (\<lambda>p. True), due_20ms = False, due_60s = False\<rparr>"
  have high: "\<forall>j<6. pin_levels ?inp (BASE_FSEL_PIN + j)" by simp
  note r = first_frame_without_jumpers_shows_multi
      [of ?inp "\<lambda>h. CRGB_of 0 0 0", THEN mp, OF high]
  from r show ?thesis by simp
qed

section \<open>Writers of the hue\<close>

text \<open>
  Claim C10. The hue is written by the 20 ms block only. The selection step (both the
  override branch and the cycle-enable edge), \<open>nextPattern\<close>, each of the six
  renderers, \<open>FastLED.show\<close> and the periodic blocks without a 20 ms firing return a
  state with the hue they were given; with a 20 ms firing the hue goes up by one. So a
  whole frame changes the hue exactly when the 20 ms timer fires in it. \<open>rainbow\<close>
  reads the hue: the first pixel it stores is the colour of that hue.
\<close>

theorem gHue_single_writer:
  "gHue (select_function ps s) = gHue s
   \<and> gHue (nextPattern s) = gHue s
   \<and> gHue (red s) = gHue s \<and> gHue (multi s) = gHue s \<and> gHue (blue s) = gHue s
   \<and> gHue (green s) = gHue s \<and> gHue (white s) = gHue s \<and> gHue (rainbow hsv2rgb s) = gHue s
   \<and> gHue (FastLED_show s) = gHue s
   \<and> gHue (periodic_tasks False d60 s) = gHue s
   \<and> gHue (periodic_tasks True d60 s) = gHue s + 1
   \<and> (loop hsv2rgb inp s = Some s' \<longrightarrow> gHue s' = (if due_20ms inp then gHue s + 1 else gHue s))
   \<and> (length (leds s) = NUM_LEDS \<longrightarrow>
        leds (rainbow hsv2rgb s) ! 0 = hsv2rgb \<lparr>hsv_hue = gHue s, hsv_sat = 240, hsv_val = 255\<rparr>)"
proof (intro conjI impI)
  show "gHue (select_function ps s) = gHue s" by (rule select_function_fields)
  show "gHue (nextPattern s) = gHue s" by (rule nextPattern_fields)
  show "gHue (red s) = gHue s" "gHue (multi s) = gHue s" "gHue (blue s) = gHue s"
    "gHue (green s) = gHue s" "gHue (white s) = gHue s" "gHue (rainbow hsv2rgb s) = gHue s"
    by (simp_all add: renderer_fields)
  show "gHue (FastLED_show s) = gHue s" by (simp add: FastLED_show_def)
  show "gHue (periodic_tasks False d60 s) = gHue s" by (simp add: periodic_tasks_hue)
  show "gHue (periodic_tasks True d60 s) = gHue s + 1" by (simp add: periodic_tasks_hue)
next
  assume "loop hsv2rgb inp s = Some s'"
  then obtain p where p: "p \<in> set (gPatterns hsv2rgb)"
    and s': "s' = periodic_tasks (due_20ms inp) (due_60s inp) (FastLED_show (p (before_render inp s)))"
    by (rule loop_SomeD)
  have "gHue (FastLED_show (p (before_render inp s))) = gHue s"
    by (simp add: FastLED_show_def gPatterns_fields [OF p] before_render_def select_function_fields)
  then show "gHue s' = (if due_20ms inp then gHue s + 1 else gHue s)"
    by (simp only: s' periodic_tasks_hue)
next
  assume len: "length (leds s) = NUM_LEDS"
  show "leds (rainbow hsv2rgb s) ! 0 = hsv2rgb \<lparr>hsv_hue = gHue s, hsv_sat = 240, hsv_val = 255\<rparr>"
    by (simp add: leds_rainbow [OF len] NUM_LEDS_def nth_map_upt del: upt_Suc)
qed

text \<open>
  A frame at hue 200 with pin 7 grounded and only the 60 s timer firing ends at hue
  200; \<open>rainbow\<close> at hue 200 starts with the colour of hue 200.
\<close>

theorem gHue_single_writer_witness:
  "(\<exists>s'. loop (\<lambda>h. CRGB_of (hsv_hue h) 0 0)
           \<lparr>pin_levels = (\<lambda>p. p \<noteq> 7), due_20ms = False, due_60s = True\<rparr>
           (power_on\<lparr>gHue := 200\<rparr>) = Some s' \<and> gHue s' = 200)
   \<and> leds (rainbow (\<lambda>h. CRGB_of (hsv_hue h) 0 0) (power_on\<lparr>gHue := 200\<rparr>)) ! 0 = CRGB_of 200 0 0"
proof -
  let ?cv = "\<lambda>h. CRGB_of (hsv_hue h) 0 0"
  let ?inp = "\<lparr>pin_levels = (\<lambda>p. p \<noteq> 7), due_20ms = False, due_60s = True\<rparr>"
  let ?s = "power_on\<lparr>gHue := 200\<rparr>"
  have "unat (gCurrentPatternNumber ?s) < ARRAY_SIZE_gPatterns"
    by (simp add: power_on_def ARRAY_SIZE_gPatterns_def)
  from loop_index [OF this, of ?cv ?inp]
  obtain s' where lp: "loop ?cv ?inp ?s = Some s'" by blast
  have len: "length (leds ?s) = NUM_LEDS" by (simp add: power_on_def)
  note w = gHue_single_writer [of "\<lambda>p. p \<noteq> 7" ?s ?cv True ?inp s']
  from w lp have "gHue s' = 200" by simp
  moreover from w len have "leds (rainbow ?cv ?s) ! 0 = CRGB_of 200 0 0" by simp
  ultimately show ?thesis using lp by simp
qed

end
